theory Spec2Isabelle
  imports Complex_Main "HOL-Library.Log_Nat"
begin

section \<open>The task store of \<open>app.py\<close>\<close>

text \<open>
  \<open>TodoApp\<close> keeps a list of task dictionaries in \<open>self.todos\<close> and rewrites the JSON
  file \<open>self.filename\<close> after every change. The dictionaries the program creates have the
  six keys of \<open>add_task\<close>; a task is a record of these. The key \<open>'id'\<close> is named
  \<open>task_id\<close> here. A \<open>timestamp\<close> is a string that \<open>datetime.now().isoformat()\<close>
  returns, so that \<open>datetime.fromisoformat\<close> reads it back; the clock is an input of
  every operation that reads it. A priority is ASCII text: the data model has the three
  priorities high, medium and low, and the command loop passes no other.
\<close>

type_synonym timestamp = string

type_synonym ascii_text = string

record todo =
  task_id :: int
  task :: string
  completed :: bool
  priority :: ascii_text
  created_at :: timestamp
  completed_at :: "timestamp option"

subsection \<open>The file\<close>

text \<open>
  What \<open>load_todos\<close> can observe of the path \<open>self.filename\<close>: \<open>os.path.exists\<close> is
  false (\<open>Absent\<close>), or it is true and \<open>open\<close> followed by \<open>json.load\<close> either returns
  the collection the file holds or raises. \<open>json.dump\<close> of a list of tasks followed by
  \<open>json.load\<close> gives the list back (integers, strings, booleans and \<open>None\<close> survive the
  round trip), so a written file is the collection it holds. Writing is taken to succeed.

  \<open>json.load\<close> reads the whole file as text and then parses the text. It raises
  \<open>JSONDecodeError\<close> when the text is not a JSON document, and \<open>UnicodeDecodeError\<close>
  (a \<open>ValueError\<close> that is not a \<open>JSONDecodeError\<close>) when the bytes of the file are not
  text in the encoding, as the single byte \<open>0xFF\<close> is not in UTF-8. \<open>open\<close> raises
  \<open>FileNotFoundError\<close> when the file has gone since \<open>os.path.exists\<close>,
  \<open>PermissionError\<close> when it may not be read and \<open>IsADirectoryError\<close> when the path
  is a directory.
\<close>

datatype py_exception =
  JSONDecodeError | FileNotFoundError | UnicodeDecodeError | PermissionError | IsADirectoryError
  | ZeroDivisionError

datatype read_result = Returns "todo list" | Raises py_exception

datatype json_file = Absent | Present read_result

record app =
  todos :: "todo list"
  disk :: json_file

text \<open>
  \<open>load_todos\<close>: the \<open>except\<close> clause catches \<open>json.JSONDecodeError\<close> and
  \<open>FileNotFoundError\<close> only; any other exception leaves the function (\<open>Inl\<close>).
\<close>

definition load_todos :: "json_file \<Rightarrow> py_exception + todo list" where
  "load_todos f =
     (case f of
        Present r \<Rightarrow>
          (case r of
             Returns ts \<Rightarrow> Inr ts
           | Raises e \<Rightarrow> if e = JSONDecodeError \<or> e = FileNotFoundError then Inr [] else Inl e)
      | Absent \<Rightarrow> Inr [])"

text \<open>\<open>__init__\<close>: the store starts as what \<open>load_todos\<close> returns.\<close>

definition TodoApp :: "json_file \<Rightarrow> py_exception + app" where
  "TodoApp f =
     (case load_todos f of
        Inl e \<Rightarrow> Inl e
      | Inr ts \<Rightarrow> Inr \<lparr>todos = ts, disk = f\<rparr>)"

definition save_todos :: "app \<Rightarrow> app" where
  "save_todos st = st\<lparr>disk := Present (Returns (todos st))\<rparr>"

subsection \<open>Messages\<close>

text \<open>
  The operations return nothing and report by \<open>print\<close>. Each \<open>print\<close> statement of an
  operation is a constructor, with the values it interpolates.
\<close>

datatype message =
  Added string string
  | AlreadyCompleted string
  | Completed string
  | Deleted string
  | NotFound int

subsection \<open>\<open>add_task\<close>\<close>

text \<open>
  \<open>str.lower\<close> on ASCII text: the letters \<open>A\<close> to \<open>Z\<close> become \<open>a\<close> to \<open>z\<close>,
  every other ASCII character stays.
\<close>

definition lower_char :: "char \<Rightarrow> char" where
  "lower_char c =
     (let n = (of_char c :: nat) in if 65 \<le> n \<and> n \<le> 90 then char_of (n + 32) else c)"

definition lower :: "ascii_text \<Rightarrow> ascii_text" where
  "lower s = map lower_char s"

text \<open>
  The parameter \<open>priority\<close> has the default \<open>"medium"\<close>: \<open>None\<close> is the call without
  the argument. The message shows the priority as it was passed, the task stores it in
  lower case.
\<close>

definition add_task ::
  "timestamp \<Rightarrow> app \<Rightarrow> string \<Rightarrow> ascii_text option \<Rightarrow> message \<times> app" where
  "add_task now st description prio =
     (let p = (case prio of None \<Rightarrow> ''medium'' | Some q \<Rightarrow> q);
          new_task = \<lparr>task_id = int (length (todos st)) + 1,
                      task = description,
                      completed = False,
                      priority = lower p,
                      created_at = now,
                      completed_at = None\<rparr>;
          st1 = st\<lparr>todos := todos st @ [new_task]\<rparr>
      in (Added description p, save_todos st1))"

subsection \<open>\<open>complete_task\<close> and \<open>delete_task\<close>\<close>

text \<open>
  The loop of \<open>complete_task\<close> over \<open>self.todos\<close>: the first task with the id decides;
  \<open>None\<close> is the loop running to its end. The result is the message and the list with
  the task updated in place.
\<close>

fun complete_loop :: "timestamp \<Rightarrow> int \<Rightarrow> todo list \<Rightarrow> (message \<times> todo list) option" where
  "complete_loop now i [] = None"
| "complete_loop now i (t # ts) =
     (if task_id t = i then
        (if completed t then Some (AlreadyCompleted (task t), t # ts)
         else Some (Completed (task t), t\<lparr>completed := True, completed_at := Some now\<rparr> # ts))
      else
        (case complete_loop now i ts of
           None \<Rightarrow> None
         | Some (m, ts') \<Rightarrow> Some (m, t # ts')))"

text \<open>\<open>save_todos\<close> is called in the branch that completes the task, and only there.\<close>

definition complete_task :: "timestamp \<Rightarrow> app \<Rightarrow> int \<Rightarrow> message \<times> app" where
  "complete_task now st i =
     (case complete_loop now i (todos st) of
        None \<Rightarrow> (NotFound i, st)
      | Some (m, ts') \<Rightarrow>
          (case m of
             Completed d \<Rightarrow> (m, save_todos (st\<lparr>todos := ts'\<rparr>))
           | _ \<Rightarrow> (m, st\<lparr>todos := ts'\<rparr>)))"

text \<open>
  The loop of \<open>delete_task\<close>: \<open>self.todos.pop(i)\<close> at the first index whose task has
  the id.
\<close>

fun delete_loop :: "int \<Rightarrow> todo list \<Rightarrow> (message \<times> todo list) option" where
  "delete_loop i [] = None"
| "delete_loop i (t # ts) =
     (if task_id t = i then Some (Deleted (task t), ts)
      else
        (case delete_loop i ts of
           None \<Rightarrow> None
         | Some (m, ts') \<Rightarrow> Some (m, t # ts')))"

definition delete_task :: "app \<Rightarrow> int \<Rightarrow> message \<times> app" where
  "delete_task st i =
     (case delete_loop i (todos st) of
        None \<Rightarrow> (NotFound i, st)
      | Some (m, ts') \<Rightarrow> (m, save_todos (st\<lparr>todos := ts'\<rparr>)))"

subsection \<open>\<open>view_tasks\<close>\<close>

text \<open>
  The sort key \<open>priority_order.get(x['priority'], 2)\<close>: a priority that is not a key of
  the dictionary ranks as medium.
\<close>

definition priority_order :: "string \<rightharpoonup> int" where
  "priority_order = [''high'' \<mapsto> 1, ''medium'' \<mapsto> 2, ''low'' \<mapsto> 3]"

definition priority_rank :: "todo \<Rightarrow> int" where
  "priority_rank x = (case priority_order (priority x) of Some r \<Rightarrow> r | None \<Rightarrow> 2)"

text \<open>
  What \<open>view_tasks\<close> prints: one of the two notices, or the tasks of \<open>tasks_to_show\<close>
  in the order of the \<open>for\<close> loop (each on a line with its id, its description and its
  icons, a completed task with the date of \<open>completed_at\<close> on a second line).
\<close>

datatype listing = NoTasksFound | NoneFound string | Shown "todo list"

text \<open>
  \<open>tasks_to_show\<close> is either the list object of \<open>self.todos\<close> itself or a new list
  built by the comprehension, and \<open>list.sort\<close> sorts the object it is called on in place.
  The list objects are kept in a store, by address: \<open>self_todos\<close> is the object that
  \<open>self.todos\<close> refers to, \<open>comprehension\<close> the new one. \<open>list.sort\<close> is stable, as
  \<open>sort_key\<close> is.
\<close>

type_synonym list_store = "nat \<Rightarrow> todo list"

definition self_todos :: nat where
  "self_todos = 0"

definition comprehension :: nat where
  "comprehension = 1"

definition list_sort :: "list_store \<Rightarrow> nat \<Rightarrow> list_store" where
  "list_sort h a = h(a := sort_key priority_rank (h a))"

definition view_tasks :: "app \<Rightarrow> bool \<Rightarrow> listing \<times> app" where
  "view_tasks st show_completed =
     (if todos st = [] then (NoTasksFound, st)
      else
        (let h0 = (\<lambda>a. [])(self_todos := todos st);
             (tasks_to_show, h1) =
               (if show_completed then (self_todos, h0)
                else (comprehension,
                      h0(comprehension := filter (\<lambda>t. \<not> completed t) (h0 self_todos))))
         in if h1 tasks_to_show = []
            then (NoneFound (if \<not> show_completed then ''completed'' else ''pending''),
                  st\<lparr>todos := h1 self_todos\<rparr>)
            else
              (let h2 = list_sort h1 tasks_to_show
               in (Shown (h2 tasks_to_show), st\<lparr>todos := h2 self_todos\<rparr>))))"

text \<open>The tasks a listing shows; the notices show none.\<close>

fun shown :: "listing \<Rightarrow> todo list" where
  "shown (Shown ts) = ts"
| "shown _ = []"

subsection \<open>\<open>get_stats\<close>\<close>

text \<open>
  \<open>completed / total\<close> divides two integers into a float and \<open>* 100\<close> multiplies
  floats: each gives the binary64 number nearest to the exact result, ties to the even
  significand. A float is its exact value, a rational. \<open>exponent x\<close> is the power of two
  at or below \<open>x\<close> (for \<open>0 < x\<close>), so that the significand
  \<open>x / 2 powi (exponent x - 52)\<close> has 53 bits. The exponent range of binary64 is not
  modelled: the quotient of two list lengths and its hundredfold are far inside it.
\<close>

definition round_half_even :: "rat \<Rightarrow> int" where
  "round_half_even x =
     (let f = \<lfloor>x\<rfloor>; r = x - of_int f
      in if r < 1 / 2 then f else if 1 / 2 < r then f + 1 else if even f then f else f + 1)"

definition exponent :: "rat \<Rightarrow> int" where
  "exponent x = (if 1 \<le> x then bitlen \<lfloor>x\<rfloor> - 1 else - bitlen (\<lceil>1 / x\<rceil> - 1))"

definition binary64 :: "rat \<Rightarrow> rat" where
  "binary64 x =
     (if x = 0 then 0
      else
        (let ulp = 2 powi (exponent \<bar>x\<bar> - 52)
         in sgn x * of_int (round_half_even (\<bar>x\<bar> / ulp)) * ulp))"

definition truediv :: "int \<Rightarrow> int \<Rightarrow> py_exception + rat" where
  "truediv a b = (if b = 0 then Inl ZeroDivisionError else Inr (binary64 (of_int a / of_int b)))"

definition float_mul :: "rat \<Rightarrow> rat \<Rightarrow> rat" where
  "float_mul x y = binary64 (x * y)"

text \<open>
  The format \<open>.1f\<close> of a float that is not negative: its exact value rounded to one
  decimal, ties to the even digit.
\<close>

fun decimal :: "nat \<Rightarrow> string" where
  "decimal n =
     (if n < 10 then [char_of (48 + n)] else decimal (n div 10) @ [char_of (48 + n mod 10)])"

definition format_1f :: "rat \<Rightarrow> string" where
  "format_1f x =
     (let tenths = nat (round_half_even (x * 10))
      in decimal (tenths div 10) @ ''.'' @ decimal (tenths mod 10))"

text \<open>
  What \<open>get_stats\<close> prints: the three counts, and the line of the completion rate
  (the float and its text before the percent sign) when there is a task. The division
  is inside \<open>if total > 0\<close>.
\<close>

record stats =
  total_tasks :: int
  completed_tasks :: int
  pending_tasks :: int
  completion_rate :: "rat option"
  rate_text :: "string option"

definition get_stats :: "app \<Rightarrow> py_exception + stats" where
  "get_stats st =
     (let total = int (length (todos st));
          completed_n = int (length (filter (\<lambda>t. completed t) (todos st)));
          pending = total - completed_n
      in if total > 0 then
           (case truediv completed_n total of
              Inl e \<Rightarrow> Inl e
            | Inr q \<Rightarrow>
                (let completion_rate = float_mul q 100
                 in Inr \<lparr>total_tasks = total,
                         completed_tasks = completed_n,
                         pending_tasks = pending,
                         completion_rate = Some completion_rate,
                         rate_text = Some (format_1f completion_rate)\<rparr>))
         else Inr \<lparr>total_tasks = total,
                   completed_tasks = completed_n,
                   pending_tasks = pending,
                   completion_rate = None,
                   rate_text = None\<rparr>)"

subsection \<open>Sequences of operations\<close>

text \<open>
  An operation of the store with its arguments; \<open>run\<close> applies a sequence of them, each
  with the time the clock shows when it runs.
\<close>

datatype operation = Add string "ascii_text option" | Complete int | Delete int | View bool

fun step :: "app \<Rightarrow> timestamp \<times> operation \<Rightarrow> app" where
  "step st (now, Add d prio) = snd (add_task now st d prio)"
| "step st (now, Complete i) = snd (complete_task now st i)"
| "step st (now, Delete i) = snd (delete_task st i)"
| "step st (now, View b) = snd (view_tasks st b)"

definition run :: "app \<Rightarrow> (timestamp \<times> operation) list \<Rightarrow> app" where
  "run st ops = foldl step st ops"

text \<open>The store of a first start: there is no file yet, and \<open>load_todos\<close> returns \<open>[]\<close>.\<close>

definition empty_store :: app where
  "empty_store = \<lparr>todos = [], disk = Absent\<rparr>"

text \<open>A task is consistent when \<open>completed_at\<close> is set exactly if \<open>completed\<close> is true.\<close>

definition consistent :: "todo \<Rightarrow> bool" where
  "consistent t \<longleftrightarrow> ((completed_at t \<noteq> None) = completed t)"

subsection \<open>Example tasks\<close>

text \<open>A task that is pending and a task that was completed, for the examples below.\<close>

definition pending_task :: "int \<Rightarrow> string \<Rightarrow> ascii_text \<Rightarrow> todo" where
  "pending_task i d p =
     \<lparr>task_id = i, task = d, completed = False, priority = p,
      created_at = ''2024-05-01T09:00:00.250000'', completed_at = None\<rparr>"

definition completed_task :: "int \<Rightarrow> string \<Rightarrow> ascii_text \<Rightarrow> todo" where
  "completed_task i d p =
     \<lparr>task_id = i, task = d, completed = True, priority = p,
      created_at = ''2024-05-01T09:00:00.250000'',
      completed_at = Some ''2024-05-02T17:30:00.250000''\<rparr>"

section \<open>Loading\<close>

text \<open>
  What \<open>load_todos\<close> recovers from: it returns the collection of a file that parses,
  and the empty collection when the file is absent, when its text is not JSON, and when
  it has gone before it is opened.
\<close>

lemma load_todos_recovers:
  "load_todos (Present (Returns ts)) = Inr ts
   \<and> load_todos Absent = Inr []
   \<and> load_todos (Present (Raises JSONDecodeError)) = Inr []
   \<and> load_todos (Present (Raises FileNotFoundError)) = Inr []"
  by (simp add: load_todos_def)

text \<open>
  Every other exception of \<open>open\<close> and \<open>json.load\<close> leaves \<open>load_todos\<close> and the
  constructor: \<open>load_todos\<close> returns exactly when the read does not raise one of them.
\<close>

lemma load_todos_propagates:
  "e \<noteq> JSONDecodeError \<Longrightarrow> e \<noteq> FileNotFoundError \<Longrightarrow>
   load_todos (Present (Raises e)) = Inl e \<and> TodoApp (Present (Raises e)) = Inl e"
  by (simp add: load_todos_def TodoApp_def)

lemma load_todos_raises_iff:
  "load_todos f = Inl e \<longleftrightarrow>
     f = Present (Raises e) \<and> e \<noteq> JSONDecodeError \<and> e \<noteq> FileNotFoundError"
  by (auto simp: load_todos_def split: json_file.splits read_result.splits)

lemma load_todos_returns_iff:
  "load_todos f = Inr ts \<longleftrightarrow>
     f = Present (Returns ts)
     \<or> ts = [] \<and> (f = Absent \<or> f = Present (Raises JSONDecodeError)
                    \<or> f = Present (Raises FileNotFoundError))"
  by (auto simp: load_todos_def split: json_file.splits read_result.splits)

lemma TodoApp_first_start: "TodoApp Absent = Inr empty_store"
  by (simp add: TodoApp_def load_todos_def empty_store_def)

lemma load_after_save: "load_todos (disk (save_todos st)) = Inr (todos st)"
  by (simp add: load_todos_def save_todos_def)

text \<open>
  C9: the claim is that \<open>load_todos\<close> returns the empty collection, and no error, in
  every case of a file whose contents cannot be parsed. The code does so when the text
  of the file is not JSON, but not when the bytes of the file are not text: the
  \<open>UnicodeDecodeError\<close> of \<open>json.load\<close> is not among the exceptions of the
  \<open>except\<close> clause, and it leaves \<open>load_todos\<close> and the constructor \<open>TodoApp\<close>.
\<close>

theorem load_todos_surfaces_decode_error:
  "load_todos (Present (Raises UnicodeDecodeError)) = Inl UnicodeDecodeError
   \<and> TodoApp (Present (Raises UnicodeDecodeError)) = Inl UnicodeDecodeError
   \<and> load_todos (Present (Raises JSONDecodeError)) = Inr []"
  by (simp add: load_todos_def TodoApp_def)

section \<open>Adding a task\<close>

text \<open>
  C5: on a store of \<open>n\<close> tasks, \<open>add_task\<close> (with or without the priority argument, which
  defaults to medium) appends exactly one task at the end, with id \<open>n + 1\<close>, the given
  description, \<open>completed\<close> false, \<open>completed_at\<close> unset and \<open>created_at\<close> the current
  time; the tasks already there are unchanged, and the file then holds the whole
  collection.
\<close>

theorem add_task_appends:
  "\<exists>t. todos (snd (add_task now st d prio)) = todos st @ [t]
     \<and> task_id t = int (length (todos st)) + 1
     \<and> task t = d
     \<and> completed t = False
     \<and> completed_at t = None
     \<and> created_at t = now
     \<and> priority t = lower (case prio of None \<Rightarrow> ''medium'' | Some q \<Rightarrow> q)
     \<and> priority (last (todos (snd (add_task now st d None)))) = ''medium''
     \<and> disk (snd (add_task now st d prio)) = Present (Returns (todos st @ [t]))"
  by (simp add: add_task_def save_todos_def Let_def lower_def lower_char_def)

subsection \<open>The empty description\<close>


section \<open>Completing and deleting\<close>

lemma complete_loop_None:
  "complete_loop now i ts = None \<longleftrightarrow> (\<forall>t \<in> set ts. task_id t \<noteq> i)"
  by (induction ts) (auto split: option.splits)

lemma complete_loop_first:
  "\<forall>u \<in> set pre. task_id u \<noteq> i \<Longrightarrow> task_id t = i \<Longrightarrow>
   complete_loop now i (pre @ t # post) =
     (if completed t then Some (AlreadyCompleted (task t), pre @ t # post)
      else Some (Completed (task t),
                 pre @ t\<lparr>completed := True, completed_at := Some now\<rparr> # post))"
  by (induction pre) auto

lemma delete_loop_None:
  "delete_loop i ts = None \<longleftrightarrow> (\<forall>t \<in> set ts. task_id t \<noteq> i)"
  by (induction ts) (auto split: option.splits)

lemma delete_loop_first:
  "\<forall>u \<in> set pre. task_id u \<noteq> i \<Longrightarrow> task_id t = i \<Longrightarrow>
   delete_loop i (pre @ t # post) = Some (Deleted (task t), pre @ post)"
  by (induction pre) auto

text \<open>
  C1: \<open>complete_task\<close> reports that the task was not found exactly when no task of the
  store has the id. Otherwise let \<open>t\<close> be the first task with the id (no task of
  \<open>pre\<close> has it): when \<open>t\<close> is completed already, the report says so and the store,
  with the \<open>completed_at\<close> of \<open>t\<close>, and the file are as before; when it is not, \<open>t\<close>
  gets \<open>completed\<close> true and \<open>completed_at\<close> the current time, no other task changes,
  and the file holds the new collection.
\<close>

theorem complete_task_spec:
  "(fst (complete_task now st i) = NotFound i \<longleftrightarrow> (\<forall>t \<in> set (todos st). task_id t \<noteq> i))
   \<and> (\<forall>pre t post.
        todos st = pre @ t # post \<and> (\<forall>u \<in> set pre. task_id u \<noteq> i) \<and> task_id t = i \<longrightarrow>
        (if completed t
         then complete_task now st i = (AlreadyCompleted (task t), st)
         else complete_task now st i =
                (Completed (task t),
                 \<lparr>todos = pre @ t\<lparr>completed := True, completed_at := Some now\<rparr> # post,
                  disk = Present (Returns
                    (pre @ t\<lparr>completed := True, completed_at := Some now\<rparr> # post))\<rparr>)))"
proof (intro conjI allI impI)
  show "fst (complete_task now st i) = NotFound i \<longleftrightarrow> (\<forall>t \<in> set (todos st). task_id t \<noteq> i)"
  proof (cases "complete_loop now i (todos st)")
    case None
    then show ?thesis
      using complete_loop_None [of now i "todos st"] by (simp add: complete_task_def)
  next
    case (Some r)
    obtain m ts' where r: "r = (m, ts')" by (cases r)
    from Some have ex: "\<not> (\<forall>t \<in> set (todos st). task_id t \<noteq> i)"
      using complete_loop_None [of now i "todos st"] by simp
    then obtain t where "t \<in> set (todos st)" "task_id t = i" by blast
    then obtain pre u post where
      dec: "todos st = pre @ u # post" "\<forall>v \<in> set pre. task_id v \<noteq> i" "task_id u = i"
      using split_list_first_prop [of "todos st" "\<lambda>t. task_id t = i"] by blast
    have "m \<noteq> NotFound i"
      using Some r complete_loop_first [OF dec(2) dec(3), of now post] dec(1)
      by (auto split: if_splits)
    then show ?thesis
      using Some r ex by (auto simp: complete_task_def split: message.splits)
  qed
next
  fix pre t post
  assume a: "todos st = pre @ t # post \<and> (\<forall>u \<in> set pre. task_id u \<noteq> i) \<and> task_id t = i"
  then have l: "complete_loop now i (todos st) =
     (if completed t then Some (AlreadyCompleted (task t), pre @ t # post)
      else Some (Completed (task t),
                 pre @ t\<lparr>completed := True, completed_at := Some now\<rparr> # post))"
    using complete_loop_first [of pre i t now post] by simp
  show "if completed t
         then complete_task now st i = (AlreadyCompleted (task t), st)
         else complete_task now st i =
                (Completed (task t),
                 \<lparr>todos = pre @ t\<lparr>completed := True, completed_at := Some now\<rparr> # post,
                  disk = Present (Returns
                    (pre @ t\<lparr>completed := True, completed_at := Some now\<rparr> # post))\<rparr>)"
    using a l by (simp add: complete_task_def save_todos_def)
qed

theorem complete_task_spec_witness:
  "fst (complete_task ''2024-05-03T08:00:00.250000''
          \<lparr>todos = [pending_task 1 ''a'' ''low'', completed_task 2 ''b'' ''high''],
           disk = Absent\<rparr> 3) = NotFound 3
   \<and> complete_task ''2024-05-03T08:00:00.250000''
          \<lparr>todos = [pending_task 1 ''a'' ''low'', completed_task 2 ''b'' ''high''],
           disk = Absent\<rparr> 2 =
        (AlreadyCompleted ''b'',
         \<lparr>todos = [pending_task 1 ''a'' ''low'', completed_task 2 ''b'' ''high''],
          disk = Absent\<rparr>)
   \<and> complete_task ''2024-05-03T08:00:00.250000''
          \<lparr>todos = [pending_task 1 ''a'' ''low'', completed_task 2 ''b'' ''high''],
           disk = Absent\<rparr> 1 =
        (Completed ''a'',
         \<lparr>todos = [(pending_task 1 ''a'' ''low'')
                      \<lparr>completed := True,
                       completed_at := Some ''2024-05-03T08:00:00.250000''\<rparr>,
                    completed_task 2 ''b'' ''high''],
          disk = Present (Returns
                   [(pending_task 1 ''a'' ''low'')
                      \<lparr>completed := True,
                       completed_at := Some ''2024-05-03T08:00:00.250000''\<rparr>,
                    completed_task 2 ''b'' ''high''])\<rparr>)"
proof -
  let ?now = "''2024-05-03T08:00:00.250000''"
  let ?a = "pending_task 1 ''a'' ''low''"
  let ?b = "completed_task 2 ''b'' ''high''"
  let ?st = "\<lparr>todos = [?a, ?b], disk = Absent\<rparr>"
  have absent: "\<forall>t \<in> set (todos ?st). task_id t \<noteq> 3"
    by (simp add: pending_task_def completed_task_def)
  have second: "todos ?st = [?a] @ ?b # [] \<and> (\<forall>u \<in> set [?a]. task_id u \<noteq> 2) \<and> task_id ?b = 2"
    by (simp add: pending_task_def completed_task_def)
  have first: "todos ?st = [] @ ?a # [?b] \<and> (\<forall>u \<in> set []. task_id u \<noteq> 1) \<and> task_id ?a = 1"
    by (simp add: pending_task_def completed_task_def)
  have "fst (complete_task ?now ?st 3) = NotFound 3"
    using complete_task_spec [of ?now ?st 3] absent by blast
  moreover have "complete_task ?now ?st 2 = (AlreadyCompleted ''b'', ?st)"
    using complete_task_spec [of ?now ?st 2, THEN conjunct2, rule_format, OF second]
    by (simp add: completed_task_def)
  moreover have "complete_task ?now ?st 1 =
      (Completed ''a'',
       \<lparr>todos = [?a\<lparr>completed := True, completed_at := Some ?now\<rparr>, ?b],
        disk = Present (Returns [?a\<lparr>completed := True, completed_at := Some ?now\<rparr>, ?b])\<rparr>)"
    using complete_task_spec [of ?now ?st 1, THEN conjunct2, rule_format, OF first]
    by (simp add: pending_task_def)
  ultimately show ?thesis by blast
qed

text \<open>
  C8: \<open>delete_task\<close> removes the first task with the id, and only it: the tasks before
  and after it stay as they are, ids included, in their order, and the file holds the
  new collection. When no task has the id, the report is that it was not found, and the
  store and the file are as before.
\<close>

theorem delete_task_spec:
  "(\<forall>pre t post.
      todos st = pre @ t # post \<and> (\<forall>u \<in> set pre. task_id u \<noteq> i) \<and> task_id t = i \<longrightarrow>
      delete_task st i =
        (Deleted (task t), \<lparr>todos = pre @ post, disk = Present (Returns (pre @ post))\<rparr>))
   \<and> ((\<forall>t \<in> set (todos st). task_id t \<noteq> i) \<longrightarrow> delete_task st i = (NotFound i, st))"
proof (intro conjI allI impI)
  fix pre t post
  assume a: "todos st = pre @ t # post \<and> (\<forall>u \<in> set pre. task_id u \<noteq> i) \<and> task_id t = i"
  then have "delete_loop i (todos st) = Some (Deleted (task t), pre @ post)"
    using delete_loop_first [of pre i t post] by simp
  then show "delete_task st i =
      (Deleted (task t), \<lparr>todos = pre @ post, disk = Present (Returns (pre @ post))\<rparr>)"
    by (simp add: delete_task_def save_todos_def)
next
  assume "\<forall>t \<in> set (todos st). task_id t \<noteq> i"
  then have "delete_loop i (todos st) = None" by (simp add: delete_loop_None)
  then show "delete_task st i = (NotFound i, st)" by (simp add: delete_task_def)
qed

theorem delete_task_spec_witness:
  "delete_task
     \<lparr>todos = [pending_task 1 ''a'' ''low'', completed_task 2 ''b'' ''high'',
               pending_task 2 ''c'' ''medium''],
      disk = Absent\<rparr> 2 =
     (Deleted ''b'',
      \<lparr>todos = [pending_task 1 ''a'' ''low'', pending_task 2 ''c'' ''medium''],
       disk = Present (Returns
                [pending_task 1 ''a'' ''low'', pending_task 2 ''c'' ''medium''])\<rparr>)
   \<and> delete_task
       \<lparr>todos = [pending_task 1 ''a'' ''low'', completed_task 2 ''b'' ''high'',
                 pending_task 2 ''c'' ''medium''],
        disk = Absent\<rparr> 5 =
       (NotFound 5,
        \<lparr>todos = [pending_task 1 ''a'' ''low'', completed_task 2 ''b'' ''high'',
                  pending_task 2 ''c'' ''medium''],
         disk = Absent\<rparr>)"
proof -
  let ?a = "pending_task 1 ''a'' ''low''"
  let ?b = "completed_task 2 ''b'' ''high''"
  let ?c = "pending_task 2 ''c'' ''medium''"
  let ?st = "\<lparr>todos = [?a, ?b, ?c], disk = Absent\<rparr>"
  have found: "todos ?st = [?a] @ ?b # [?c] \<and> (\<forall>u \<in> set [?a]. task_id u \<noteq> 2) \<and> task_id ?b = 2"
    by (simp add: pending_task_def completed_task_def)
  have absent: "\<forall>t \<in> set (todos ?st). task_id t \<noteq> 5"
    by (simp add: pending_task_def completed_task_def)
  have "delete_task ?st 2 =
      (Deleted ''b'', \<lparr>todos = [?a, ?c], disk = Present (Returns [?a, ?c])\<rparr>)"
    using delete_task_spec [of ?st 2, THEN conjunct1, rule_format, OF found]
    by (simp add: completed_task_def)
  moreover have "delete_task ?st 5 = (NotFound 5, ?st)"
    using delete_task_spec [of ?st 5, THEN conjunct2, THEN mp, OF absent] .
  ultimately show ?thesis by blast
qed

section \<open>Listing\<close>

lemma view_tasks_disk: "disk (snd (view_tasks st b)) = disk st"
  by (simp add: view_tasks_def list_sort_def self_todos_def comprehension_def Let_def)

lemma view_tasks_pending_todos: "todos (snd (view_tasks st False)) = todos st"
  by (simp add: view_tasks_def list_sort_def self_todos_def comprehension_def Let_def)

lemma view_tasks_all_todos:
  "todos (snd (view_tasks st True)) = sort_key priority_rank (todos st)"
  by (cases "todos st") (simp_all add: view_tasks_def list_sort_def self_todos_def Let_def)

lemma view_tasks_set: "set (todos (snd (view_tasks st b))) = set (todos st)"
  by (cases b) (simp_all add: view_tasks_pending_todos view_tasks_all_todos)

lemma shown_view_tasks:
  "shown (fst (view_tasks st b)) =
     sort_key priority_rank (if b then todos st else filter (\<lambda>t. \<not> completed t) (todos st))"
  by (simp add: view_tasks_def list_sort_def self_todos_def comprehension_def Let_def)

text \<open>
  C2: \<open>view_tasks(show_completed=True)\<close> sorts \<open>self.todos\<close> itself, because
  \<open>tasks_to_show\<close> is then the same list object. On a store that holds a task of low
  priority before a task of high priority, the call leaves the store with the two tasks
  in the other order, while \<open>view_tasks(show_completed=False)\<close> leaves it as it was.
  The file is not written by either call.
\<close>

theorem view_tasks_all_reorders_store:
  "todos (snd (view_tasks
      \<lparr>todos = [pending_task 1 ''a'' ''low'', pending_task 2 ''b'' ''high''],
       disk = Present (Returns
                [pending_task 1 ''a'' ''low'', pending_task 2 ''b'' ''high''])\<rparr> True)) =
     [pending_task 2 ''b'' ''high'', pending_task 1 ''a'' ''low'']
   \<and> todos (snd (view_tasks
      \<lparr>todos = [pending_task 1 ''a'' ''low'', pending_task 2 ''b'' ''high''],
       disk = Present (Returns
                [pending_task 1 ''a'' ''low'', pending_task 2 ''b'' ''high''])\<rparr> False)) =
     [pending_task 1 ''a'' ''low'', pending_task 2 ''b'' ''high'']
   \<and> disk (snd (view_tasks
      \<lparr>todos = [pending_task 1 ''a'' ''low'', pending_task 2 ''b'' ''high''],
       disk = Present (Returns
                [pending_task 1 ''a'' ''low'', pending_task 2 ''b'' ''high''])\<rparr> True)) =
     Present (Returns [pending_task 1 ''a'' ''low'', pending_task 2 ''b'' ''high''])"
  by (simp add: view_tasks_def list_sort_def self_todos_def comprehension_def Let_def
      pending_task_def priority_rank_def priority_order_def)

text \<open>
  C4: the tasks that \<open>view_tasks\<close> shows are in the order of their priority rank, where
  high is 1, medium is 2 and low is 3, and the tasks of one rank are in the order they
  have in the store (among the pending tasks, when the completed ones are left out).
  Three tasks added with the priorities low, high and medium are shown as high, medium,
  low.
\<close>

theorem view_tasks_order:
  "sorted (map priority_rank (shown (fst (view_tasks st b))))
   \<and> (\<forall>k. filter (\<lambda>t. priority_rank t = k) (shown (fst (view_tasks st b))) =
            filter (\<lambda>t. priority_rank t = k)
              (if b then todos st else filter (\<lambda>t. \<not> completed t) (todos st)))
   \<and> priority_rank (x\<lparr>priority := ''high''\<rparr>) = 1
   \<and> priority_rank (x\<lparr>priority := ''medium''\<rparr>) = 2
   \<and> priority_rank (x\<lparr>priority := ''low''\<rparr>) = 3
   \<and> map (\<lambda>t. (task t, priority t))
         (shown (fst (view_tasks
            (run empty_store
               [(n1, Add d1 (Some ''low'')), (n2, Add d2 (Some ''high'')),
                (n3, Add d3 (Some ''medium''))]) b))) =
       [(d2, ''high''), (d3, ''medium''), (d1, ''low'')]"
proof (intro conjI)
  show "sorted (map priority_rank (shown (fst (view_tasks st b))))"
    by (simp only: shown_view_tasks sorted_sort_key)
  show "\<forall>k. filter (\<lambda>t. priority_rank t = k) (shown (fst (view_tasks st b))) =
            filter (\<lambda>t. priority_rank t = k)
              (if b then todos st else filter (\<lambda>t. \<not> completed t) (todos st))"
    by (simp only: shown_view_tasks sort_key_stable) simp
  show "priority_rank (x\<lparr>priority := ''high''\<rparr>) = 1"
    by (simp add: priority_rank_def priority_order_def)
  show "priority_rank (x\<lparr>priority := ''medium''\<rparr>) = 2"
    by (simp add: priority_rank_def priority_order_def)
  show "priority_rank (x\<lparr>priority := ''low''\<rparr>) = 3"
    by (simp add: priority_rank_def priority_order_def)
  show "map (\<lambda>t. (task t, priority t))
         (shown (fst (view_tasks
            (run empty_store
               [(n1, Add d1 (Some ''low'')), (n2, Add d2 (Some ''high'')),
                (n3, Add d3 (Some ''medium''))]) b))) =
       [(d2, ''high''), (d3, ''medium''), (d1, ''low'')]"
    by (simp add: shown_view_tasks run_def empty_store_def add_task_def save_todos_def Let_def
        lower_def lower_char_def priority_rank_def priority_order_def)
qed

section \<open>Sequences of operations\<close>

text \<open>
  C3: from the empty store, add, add, delete(1), add leaves two tasks in the store, the
  second and the fourth that were added, and both have the id 2: the ids of a store need
  not be distinct.
\<close>

theorem task_ids_collide:
  "map task_id (todos (run empty_store
      [(n1, Add a p1), (n2, Add b p2), (n3, Delete 1), (n4, Add c p3)])) = [2, 2]
   \<and> map task (todos (run empty_store
      [(n1, Add a p1), (n2, Add b p2), (n3, Delete 1), (n4, Add c p3)])) = [b, c]
   \<and> (\<exists>ops. \<not> distinct (map task_id (todos (run empty_store ops))))"
proof -
  have ids: "map task_id (todos (run empty_store
      [(n1, Add a p1), (n2, Add b p2), (n3, Delete 1), (n4, Add c p3)])) = [2, 2]"
    by (simp add: run_def empty_store_def add_task_def delete_task_def save_todos_def Let_def)
  have descriptions: "map task (todos (run empty_store
      [(n1, Add a p1), (n2, Add b p2), (n3, Delete 1), (n4, Add c p3)])) = [b, c]"
    by (simp add: run_def empty_store_def add_task_def delete_task_def save_todos_def Let_def)
  have "\<not> distinct (map task_id (todos (run empty_store
      [(n1, Add a p1), (n2, Add b p2), (n3, Delete 1), (n4, Add c p3)])))"
    by (simp only: ids) simp
  then have "\<exists>ops. \<not> distinct (map task_id (todos (run empty_store ops)))" by blast
  with ids descriptions show ?thesis by blast
qed

lemma complete_loop_consistent:
  "complete_loop now i ts = Some (m, ts') \<Longrightarrow> \<forall>t \<in> set ts. consistent t \<Longrightarrow>
   \<forall>t \<in> set ts'. consistent t"
proof (induction ts arbitrary: m ts')
  case Nil
  then show ?case by simp
next
  case (Cons u us)
  show ?case
  proof (cases "task_id u = i")
    case True
    then show ?thesis using Cons.prems by (auto simp: consistent_def split: if_splits)
  next
    case False
    then obtain us' where l: "complete_loop now i us = Some (m, us')" and ts': "ts' = u # us'"
      using Cons.prems(1) by (auto split: option.splits)
    have "\<forall>t \<in> set us'. consistent t" using Cons.IH [OF l] Cons.prems(2) by simp
    then show ?thesis using ts' Cons.prems(2) by simp
  qed
qed

lemma delete_loop_subset:
  "delete_loop i ts = Some (m, ts') \<Longrightarrow> set ts' \<subseteq> set ts"
  by (induction ts arbitrary: m ts') (auto split: if_splits option.splits)

lemma step_consistent:
  assumes "\<forall>t \<in> set (todos st). consistent t"
  shows "\<forall>t \<in> set (todos (step st op)). consistent t"
proof -
  obtain now c where op: "op = (now, c)" by (cases op)
  show ?thesis
  proof (cases c)
    case (Add d prio)
    then show ?thesis
      using assms op by (simp add: add_task_def save_todos_def Let_def consistent_def)
  next
    case (Complete i)
    show ?thesis
    proof (cases "complete_loop now i (todos st)")
      case None
      then show ?thesis using assms op Complete by (simp add: complete_task_def)
    next
      case (Some r)
      obtain m ts' where r: "r = (m, ts')" by (cases r)
      have "\<forall>t \<in> set ts'. consistent t"
        using complete_loop_consistent [of now i "todos st" m ts'] Some r assms by simp
      then show ?thesis
        using op Complete Some r
        by (simp add: complete_task_def save_todos_def split: message.splits)
    qed
  next
    case (Delete i)
    show ?thesis
    proof (cases "delete_loop i (todos st)")
      case None
      then show ?thesis using assms op Delete by (simp add: delete_task_def)
    next
      case (Some r)
      obtain m ts' where r: "r = (m, ts')" by (cases r)
      have "set ts' \<subseteq> set (todos st)"
        using delete_loop_subset [of i "todos st" m ts'] Some r by simp
      then show ?thesis
        using op Delete Some r assms
        by (auto simp: delete_task_def save_todos_def)
    qed
  next
    case (View b)
    then show ?thesis using assms op by (simp add: view_tasks_set)
  qed
qed

lemma run_consistent:
  "\<forall>t \<in> set (todos st). consistent t \<Longrightarrow> \<forall>t \<in> set (todos (run st ops)). consistent t"
  unfolding run_def
proof (induction ops arbitrary: st)
  case Nil
  then show ?case by simp
next
  case (Cons op ops)
  have "\<forall>t \<in> set (todos (step st op)). consistent t"
    by (rule step_consistent [OF Cons.prems])
  then show ?case using Cons.IH by simp
qed

text \<open>
  C7: in every store reached from the empty store by adding, completing and deleting
  (and listing), each task has \<open>completed_at\<close> set exactly if its \<open>completed\<close> is true.
\<close>

theorem completed_at_iff_completed:
  "\<forall>t \<in> set (todos (run empty_store ops)). (completed_at t \<noteq> None) = completed t"
proof -
  have "\<forall>t \<in> set (todos (run empty_store ops)). consistent t"
    by (rule run_consistent) (simp add: empty_store_def)
  then show ?thesis by (simp add: consistent_def)
qed

theorem completed_at_iff_completed_witness:
  "map (\<lambda>t. (task t, completed t, completed_at t))
     (todos (run empty_store
        [(''2024-05-01T09:00:00.250000'', Add ''a'' None),
         (''2024-05-01T09:01:00.250000'', Add ''b'' (Some ''high'')),
         (''2024-05-01T09:02:00.250000'', Add ''c'' None),
         (''2024-05-01T09:03:00.250000'', Complete 2),
         (''2024-05-01T09:04:00.250000'', Delete 1)])) =
     [(''b'', True, Some ''2024-05-01T09:03:00.250000''), (''c'', False, None)]
   \<and> list_all (\<lambda>t. (completed_at t \<noteq> None) = completed t)
       (todos (run empty_store
          [(''2024-05-01T09:00:00.250000'', Add ''a'' None),
           (''2024-05-01T09:01:00.250000'', Add ''b'' (Some ''high'')),
           (''2024-05-01T09:02:00.250000'', Add ''c'' None),
           (''2024-05-01T09:03:00.250000'', Complete 2),
           (''2024-05-01T09:04:00.250000'', Delete 1)]))"
proof -
  let ?ops = "[(''2024-05-01T09:00:00.250000'', Add ''a'' None),
         (''2024-05-01T09:01:00.250000'', Add ''b'' (Some ''high'')),
         (''2024-05-01T09:02:00.250000'', Add ''c'' None),
         (''2024-05-01T09:03:00.250000'', Complete 2),
         (''2024-05-01T09:04:00.250000'', Delete 1)]"
  have "map (\<lambda>t. (task t, completed t, completed_at t)) (todos (run empty_store ?ops)) =
     [(''b'', True, Some ''2024-05-01T09:03:00.250000''), (''c'', False, None)]"
    by (simp add: run_def empty_store_def add_task_def complete_task_def delete_task_def
        save_todos_def Let_def)
  moreover have "list_all (\<lambda>t. (completed_at t \<noteq> None) = completed t)
       (todos (run empty_store ?ops))"
    using completed_at_iff_completed [of ?ops] by (simp only: list_all_iff)
  ultimately show ?thesis by blast
qed

section \<open>Statistics\<close>

text \<open>
  Rounding to the nearest integer is off by a half at most, and \<open>exponent x\<close> is the
  binary exponent of \<open>x\<close>: \<open>2 powi exponent x \<le> x < 2 powi (exponent x + 1)\<close>. So
  \<open>binary64\<close> keeps 53 bits and its relative error is at most \<open>2 powi - 53\<close>; the
  quotient and the product of \<open>get_stats\<close> together stay within \<open>2 powi - 51\<close> of the
  exact rate.
\<close>

lemma round_half_even_error: "\<bar>of_int (round_half_even x) - x\<bar> \<le> 1 / 2"
proof -
  have "of_int \<lfloor>x\<rfloor> \<le> x" "x < of_int \<lfloor>x\<rfloor> + 1" by linarith+
  then show ?thesis
    by (auto simp: round_half_even_def Let_def abs_le_iff)
qed

lemma pow_bitlen_le: "0 < n \<Longrightarrow> (2::rat) powi (bitlen n - 1) \<le> of_int n"
proof -
  assume n: "0 < n"
  then have b: "1 \<le> bitlen n" by (auto simp: bitlen_alt_def)
  have "(2::int) ^ nat (bitlen n - 1) \<le> n" using bitlen_bounds [OF n] by simp
  then have "(of_int ((2::int) ^ nat (bitlen n - 1)) :: rat) \<le> of_int n"
    by (simp only: of_int_le_iff)
  then show ?thesis using b by (simp add: power_int_def)
qed

lemma exponent_le: assumes "0 < x" shows "2 powi (exponent x) \<le> x"
proof (cases "1 \<le> x")
  case True
  then have f: "0 < \<lfloor>x\<rfloor>" by linarith
  have "2 powi (bitlen \<lfloor>x\<rfloor> - 1) \<le> (of_int \<lfloor>x\<rfloor> :: rat)" by (rule pow_bitlen_le [OF f])
  also have "\<dots> \<le> x" by linarith
  finally show ?thesis using True by (simp add: exponent_def)
next
  case False
  then have "1 < 1 / x" using assms by (simp add: field_simps)
  then have c: "0 < \<lceil>1 / x\<rceil> - 1" by linarith
  have "1 / x \<le> of_int \<lceil>1 / x\<rceil>" by linarith
  also have "\<dots> = of_int (\<lceil>1 / x\<rceil> - 1) + 1" by simp
  also have "\<dots> \<le> 2 powi (bitlen (\<lceil>1 / x\<rceil> - 1))"
  proof -
    have "\<lceil>1 / x\<rceil> - 1 < (2::int) ^ nat (bitlen (\<lceil>1 / x\<rceil> - 1))"
      using bitlen_bounds [OF c] by simp
    then have "\<lceil>1 / x\<rceil> - 1 + 1 \<le> (2::int) ^ nat (bitlen (\<lceil>1 / x\<rceil> - 1))" by linarith
    then have "(of_int (\<lceil>1 / x\<rceil> - 1 + 1) :: rat) \<le> of_int ((2::int) ^ nat (bitlen (\<lceil>1 / x\<rceil> - 1)))"
      by (simp only: of_int_le_iff)
    then show ?thesis using bitlen_nonneg [of "\<lceil>1 / x\<rceil> - 1"] by (simp add: power_int_def)
  qed
  finally have "1 / x \<le> 2 powi (bitlen (\<lceil>1 / x\<rceil> - 1))" .
  then have "1 / (2 powi (bitlen (\<lceil>1 / x\<rceil> - 1))) \<le> x"
    using assms by (simp add: field_simps)
  then show ?thesis using False by (simp add: exponent_def power_int_minus field_simps)
qed

lemma exponent_gt: assumes "0 < x" shows "x < 2 powi (exponent x + 1)"
proof (cases "1 \<le> x")
  case True
  then have f: "0 < \<lfloor>x\<rfloor>" by linarith
  have "\<lfloor>x\<rfloor> < (2::int) ^ nat (bitlen \<lfloor>x\<rfloor>)" using bitlen_bounds [OF f] by simp
  then have "\<lfloor>x\<rfloor> + 1 \<le> (2::int) ^ nat (bitlen \<lfloor>x\<rfloor>)" by linarith
  then have "(of_int (\<lfloor>x\<rfloor> + 1) :: rat) \<le> of_int ((2::int) ^ nat (bitlen \<lfloor>x\<rfloor>))"
    by (simp only: of_int_le_iff)
  then have "of_int \<lfloor>x\<rfloor> + 1 \<le> (2::rat) powi (bitlen \<lfloor>x\<rfloor>)"
    using bitlen_nonneg [of "\<lfloor>x\<rfloor>"] by (simp add: power_int_def)
  moreover have "x < of_int \<lfloor>x\<rfloor> + 1" by linarith
  ultimately show ?thesis using True by (simp add: exponent_def)
next
  case False
  then have "1 < 1 / x" using assms by (simp add: field_simps)
  then have c: "0 < \<lceil>1 / x\<rceil> - 1" by linarith
  have "(2::rat) powi (bitlen (\<lceil>1 / x\<rceil> - 1) - 1) \<le> of_int (\<lceil>1 / x\<rceil> - 1)"
    by (rule pow_bitlen_le [OF c])
  also have "\<dots> < 1 / x" by linarith
  finally have "(2::rat) powi (bitlen (\<lceil>1 / x\<rceil> - 1) - 1) < 1 / x" .
  moreover have "(0::rat) < 2 powi (bitlen (\<lceil>1 / x\<rceil> - 1) - 1)" by simp
  ultimately have "x < 1 / 2 powi (bitlen (\<lceil>1 / x\<rceil> - 1) - 1)"
    using assms by (simp add: field_simps)
  also have "\<dots> = 2 powi (- bitlen (\<lceil>1 / x\<rceil> - 1) + 1)"
  proof -
    have e: "- bitlen (\<lceil>1 / x\<rceil> - 1) + 1 = - (bitlen (\<lceil>1 / x\<rceil> - 1) - 1)" by simp
    show ?thesis
      unfolding e
      using power_int_minus [of "2::rat" "bitlen (\<lceil>1 / x\<rceil> - 1) - 1"]
      by (simp only: inverse_eq_divide)
  qed
  finally show ?thesis using False by (simp add: exponent_def)
qed

lemma binary64_error: "\<bar>binary64 x - x\<bar> \<le> \<bar>x\<bar> / 2 ^ 53"
proof (cases "x = 0")
  case True
  then show ?thesis by (simp add: binary64_def)
next
  case False
  define a where "a = \<bar>x\<bar>"
  define ulp :: rat where "ulp = 2 powi (exponent a - 52)"
  define m where "m = round_half_even (a / ulp)"
  have a: "0 < a" using False by (simp add: a_def)
  have ulp: "0 < ulp" by (simp add: ulp_def)
  have b: "binary64 x = sgn x * of_int m * ulp"
    using False by (simp add: binary64_def Let_def a_def ulp_def m_def)
  have x: "x = sgn x * a" by (simp add: a_def sgn_mult_abs)
  have "binary64 x - x = sgn x * (of_int m * ulp - a)"
    using b x by (metis mult.assoc right_diff_distrib)
  then have "\<bar>binary64 x - x\<bar> = \<bar>of_int m * ulp - a\<bar>"
    using False by (simp add: abs_mult abs_sgn_eq)
  also have "\<dots> = \<bar>of_int m - a / ulp\<bar> * ulp"
  proof -
    have "of_int m * ulp - a = (of_int m - a / ulp) * ulp" using ulp by (simp add: field_simps)
    then show ?thesis using ulp by (simp add: abs_mult)
  qed
  also have "\<dots> \<le> (1 / 2) * ulp"
    using round_half_even_error [of "a / ulp"] ulp by (simp add: m_def mult_right_mono)
  also have "\<dots> = 2 powi (exponent a) / 2 ^ 53"
    by (simp add: ulp_def power_int_diff)
  also have "\<dots> \<le> a / 2 ^ 53"
    using exponent_le [OF a] by (simp add: divide_right_mono)
  finally show ?thesis by (simp add: a_def)
qed

lemma rate_error:
  assumes "0 \<le> c" "0 < t"
  shows "\<bar>binary64 (binary64 (of_int c / of_int t) * 100) - of_int c / of_int t * 100\<bar>
           \<le> (of_int c / of_int t * 100) / 2 ^ 51"
proof -
  define q :: rat where "q = of_int c / of_int t"
  define x where "x = binary64 q"
  define y where "y = binary64 (x * 100)"
  have q: "0 \<le> q" using assms by (simp add: q_def)
  have e1: "\<bar>x - q\<bar> \<le> q / 2 ^ 53"
    using binary64_error [of q] q by (simp add: x_def)
  have "q / 2 ^ 53 \<le> q" using q by (simp add: divide_le_eq)
  with e1 have x2: "\<bar>x\<bar> \<le> 2 * q" by linarith
  have "\<bar>y - x * 100\<bar> \<le> \<bar>x * 100\<bar> / 2 ^ 53"
    using binary64_error [of "x * 100"] by (simp add: y_def)
  also have "\<dots> \<le> (2 * q * 100) / 2 ^ 53" using x2 by (simp add: abs_mult divide_right_mono)
  finally have e2: "\<bar>y - x * 100\<bar> \<le> (2 * q * 100) / 2 ^ 53" .
  have "x * 100 - q * 100 = (x - q) * 100" by (simp add: algebra_simps)
  then have "\<bar>x * 100 - q * 100\<bar> = \<bar>x - q\<bar> * 100"
    by (simp only: abs_mult abs_numeral)
  then have "\<bar>y - q * 100\<bar> \<le> \<bar>y - x * 100\<bar> + \<bar>x - q\<bar> * 100"
    by linarith
  also have "\<dots> \<le> (2 * q * 100) / 2 ^ 53 + (q / 2 ^ 53) * 100"
    by (intro add_mono mult_right_mono e1 e2) simp
  also have "\<dots> \<le> (q * 100) / 2 ^ 51" using q by (simp add: field_simps)
  finally show ?thesis by (simp add: y_def x_def q_def)
qed

lemma rate_one_of_four: "float_mul (binary64 (1 / 4)) 100 = 25"
  by code_simp

lemma text_of_25: "format_1f 25 = ''25.0''"
  by code_simp

text \<open>
  C10: \<open>get_stats\<close> raises nothing and reports the number of tasks as the total, the
  number of tasks with \<open>completed\<close> true as completed, and their difference as pending.
  The line of the completion rate is left out exactly when the total is 0; otherwise the
  rate is \<open>(completed / total) * 100\<close> in float arithmetic, which is the exact value of
  completed/total times 100 up to the rounding of the two operations, and it is printed
  with one decimal. On 4 tasks with 1 completed the report is 4, 1, 3 and 25.0.
\<close>

theorem get_stats_spec:
  "\<exists>s. get_stats st = Inr s
     \<and> total_tasks s = int (length (todos st))
     \<and> completed_tasks s = int (length (filter completed (todos st)))
     \<and> pending_tasks s = total_tasks s - completed_tasks s
     \<and> (completion_rate s = None \<longleftrightarrow> total_tasks s = 0)
     \<and> (rate_text s = None \<longleftrightarrow> total_tasks s = 0)
     \<and> (total_tasks s \<noteq> 0 \<longrightarrow>
          (\<exists>q r. truediv (completed_tasks s) (total_tasks s) = Inr q
             \<and> r = float_mul q 100
             \<and> completion_rate s = Some r
             \<and> rate_text s = Some (format_1f r)
             \<and> \<bar>r - of_int (completed_tasks s) / of_int (total_tasks s) * 100\<bar>
                 \<le> of_int (completed_tasks s) / of_int (total_tasks s) * 100 / 2 ^ 51))
     \<and> (length (todos st) = 4 \<and> length (filter completed (todos st)) = 1 \<longrightarrow>
          s = \<lparr>total_tasks = 4, completed_tasks = 1, pending_tasks = 3,
               completion_rate = Some 25, rate_text = Some ''25.0''\<rparr>)"
proof (cases "todos st = []")
  case True
  then show ?thesis by (simp add: get_stats_def)
next
  case False
  define t where "t = int (length (todos st))"
  define c where "c = int (length (filter completed (todos st)))"
  define r where "r = float_mul (binary64 (of_int c / of_int t)) 100"
  define s where "s = \<lparr>total_tasks = t, completed_tasks = c, pending_tasks = t - c,
    completion_rate = Some r, rate_text = Some (format_1f r)\<rparr>"
  have t: "0 < t" using False by (simp add: t_def)
  have c: "0 \<le> c" by (simp add: c_def)
  have g: "get_stats st = Inr s"
    using t by (simp add: get_stats_def truediv_def Let_def s_def r_def t_def c_def)
  have d: "truediv (completed_tasks s) (total_tasks s) = Inr (binary64 (of_int c / of_int t))"
    using t by (simp add: truediv_def s_def)
  have e: "\<bar>r - of_int c / of_int t * 100\<bar> \<le> of_int c / of_int t * 100 / 2 ^ 51"
    using rate_error [OF c t] by (simp add: r_def float_mul_def)
  have four: "s = \<lparr>total_tasks = 4, completed_tasks = 1, pending_tasks = 3,
               completion_rate = Some 25, rate_text = Some ''25.0''\<rparr>"
    if "length (todos st) = 4 \<and> length (filter completed (todos st)) = 1"
    using that by (simp add: s_def r_def t_def c_def rate_one_of_four text_of_25)
  have rate: "\<exists>q r. truediv (completed_tasks s) (total_tasks s) = Inr q
             \<and> r = float_mul q 100
             \<and> completion_rate s = Some r
             \<and> rate_text s = Some (format_1f r)
             \<and> \<bar>r - of_int (completed_tasks s) / of_int (total_tasks s) * 100\<bar>
                 \<le> of_int (completed_tasks s) / of_int (total_tasks s) * 100 / 2 ^ 51"
    using d e by (simp add: s_def r_def)
  show ?thesis
  proof (intro exI [of _ s] conjI impI)
    show "get_stats st = Inr s" by (rule g)
    show "total_tasks s = int (length (todos st))" by (simp add: s_def t_def)
    show "completed_tasks s = int (length (filter completed (todos st)))"
      by (simp add: s_def c_def)
    show "pending_tasks s = total_tasks s - completed_tasks s" by (simp add: s_def)
    show "completion_rate s = None \<longleftrightarrow> total_tasks s = 0" using t by (simp add: s_def)
    show "rate_text s = None \<longleftrightarrow> total_tasks s = 0" using t by (simp add: s_def)
    show "\<exists>q r. truediv (completed_tasks s) (total_tasks s) = Inr q
             \<and> r = float_mul q 100
             \<and> completion_rate s = Some r
             \<and> rate_text s = Some (format_1f r)
             \<and> \<bar>r - of_int (completed_tasks s) / of_int (total_tasks s) * 100\<bar>
                 \<le> of_int (completed_tasks s) / of_int (total_tasks s) * 100 / 2 ^ 51"
      by (rule rate)
    show "s = \<lparr>total_tasks = 4, completed_tasks = 1, pending_tasks = 3,
               completion_rate = Some 25, rate_text = Some ''25.0''\<rparr>"
      if "length (todos st) = 4 \<and> length (filter completed (todos st)) = 1"
      using that by (rule four)
  qed
qed

theorem get_stats_spec_witness:
  "get_stats
     \<lparr>todos = [pending_task 1 ''a'' ''low'', completed_task 2 ''b'' ''high'',
               pending_task 3 ''c'' ''medium'', pending_task 4 ''d'' ''medium''],
      disk = Absent\<rparr> =
     Inr \<lparr>total_tasks = 4, completed_tasks = 1, pending_tasks = 3,
          completion_rate = Some 25, rate_text = Some ''25.0''\<rparr>"
proof -
  let ?st = "\<lparr>todos = [pending_task 1 ''a'' ''low'', completed_task 2 ''b'' ''high'',
               pending_task 3 ''c'' ''medium'', pending_task 4 ''d'' ''medium''],
      disk = Absent\<rparr>"
  have four: "length (todos ?st) = 4 \<and> length (filter completed (todos ?st)) = 1"
    by (simp add: pending_task_def completed_task_def)
  show ?thesis
    using get_stats_spec [of ?st] four by blast
qed

end
